theory Spec2Isabelle
  imports Complex_Main "HOL-Library.AList"
begin

section \<open>JavaScript values\<close>

text \<open>
  The values that reach the wrapper are JavaScript values. The model covers the primitive
  values and plain data objects (string keys, own writable data properties, property
  values again of this kind). Numbers are exact rationals together with \<open>NaN\<close> and the
  two infinities: rounding of IEEE doubles is not modelled. An object is the list of its
  own properties in enumeration order. Objects are values here: two entries never share
  one object. Objects with accessors, frozen objects and proxies are outside the model,
  and so are the names an object inherits from \<open>Object.prototype\<close>, such as
  \<open>toString\<close>: a table has its own properties only.
\<close>

datatype jsnum = Fin rat | NaN | PosInf | NegInf

datatype jsval =
    JUndefined
  | JNull
  | JBool bool
  | JNum jsnum
  | JStr string
  | JObj "(string \<times> jsval) list"

type_synonym props = "(string \<times> jsval) list"

datatype error = TypeError

text \<open>\<open>o[k]\<close> on own properties: a missing property reads as \<open>undefined\<close>.\<close>

definition get_prop :: "props \<Rightarrow> string \<Rightarrow> jsval" where
  "get_prop ps k = (case map_of ps k of None \<Rightarrow> JUndefined | Some v \<Rightarrow> v)"

text \<open>\<open>o[k] = v\<close> on an extensible plain object: overwrite in place, or append.\<close>

definition set_prop :: "string \<Rightarrow> jsval \<Rightarrow> props \<Rightarrow> props" where
  "set_prop k v ps = AList.update k v ps"

definition has_own :: "props \<Rightarrow> string \<Rightarrow> bool" where
  "has_own ps k = (k \<in> set (map fst ps))"

text \<open>\<open>Object.keys(o)\<close>.\<close>

definition object_keys :: "props \<Rightarrow> string list" where
  "object_keys ps = map fst ps"

text \<open>\<open>v == null\<close>.\<close>

fun is_nullish :: "jsval \<Rightarrow> bool" where
  "is_nullish JUndefined = True"
| "is_nullish JNull = True"
| "is_nullish _ = False"

fun is_object :: "jsval \<Rightarrow> bool" where
  "is_object (JObj ps) = True"
| "is_object _ = False"


text \<open>
  \<open>e?.value\<close>: \<open>undefined\<close> when \<open>e\<close> is \<open>undefined\<close> or \<open>null\<close>; the own property of
  an object; \<open>undefined\<close> on a boolean, a number or a string, whose wrappers have no
  property \<open>value\<close>.
\<close>

fun optional_value :: "jsval \<Rightarrow> jsval" where
  "optional_value (JObj ps) = get_prop ps ''value''"
| "optional_value _ = JUndefined"

text \<open>
  \<open>e.value = v\<close> in strict code (a class body is strict code), giving the updated \<open>e\<close>:
  a \<open>TypeError\<close> on \<open>undefined\<close> and \<open>null\<close>, and also on a boolean, a number or a
  string, where strict code cannot create the property.
\<close>

fun assign_value :: "jsval \<Rightarrow> jsval \<Rightarrow> error + jsval" where
  "assign_value (JObj ps) v = Inr (JObj (set_prop ''value'' v ps))"
| "assign_value _ v = Inl TypeError"

text \<open>\<open>uniforms.name.value = v\<close> on the table \<open>uniforms\<close>.\<close>

definition put_value :: "string \<Rightarrow> jsval \<Rightarrow> props \<Rightarrow> error + props" where
  "put_value name v us =
     (case assign_value (get_prop us name) v of
        Inl e \<Rightarrow> Inl e
      | Inr e' \<Rightarrow> Inr (set_prop name e' us))"

text \<open>
  \<open>ToNumber\<close>. The conversion of a string is the engine's \<open>StringToNumber\<close>, a parameter.
  A plain data object has no callable own \<open>valueOf\<close> or \<open>toString\<close>: the inherited
  \<open>toString\<close> gives \<open>"[object Object]"\<close>, which converts to \<open>NaN\<close>, unless an own data
  property \<open>toString\<close> hides it, and then the conversion raises a \<open>TypeError\<close>.
\<close>

fun to_number :: "(string \<Rightarrow> jsnum) \<Rightarrow> jsval \<Rightarrow> error + jsnum" where
  "to_number s2n JUndefined = Inr NaN"
| "to_number s2n JNull = Inr (Fin 0)"
| "to_number s2n (JBool b) = Inr (Fin (if b then 1 else 0))"
| "to_number s2n (JNum n) = Inr n"
| "to_number s2n (JStr s) = Inr (s2n s)"
| "to_number s2n (JObj ps) = (if has_own ps ''toString'' then Inl TypeError else Inr NaN)"

text \<open>\<open>n + 1\<close> on a number.\<close>

fun add_one :: "jsnum \<Rightarrow> jsnum" where
  "add_one (Fin r) = Fin (r + 1)"
| "add_one NaN = NaN"
| "add_one PosInf = PosInf"
| "add_one NegInf = NegInf"

text \<open>
  \<open>uniforms.name.value++\<close>: reading \<open>value\<close> of \<open>undefined\<close> or \<open>null\<close> raises, a
  primitive entry reads \<open>undefined\<close> and raises at the write, an object entry converts
  its value and stores the successor.
\<close>

definition increment_value :: "(string \<Rightarrow> jsnum) \<Rightarrow> string \<Rightarrow> props \<Rightarrow> error + props" where
  "increment_value s2n name us =
     (case get_prop us name of
        JObj ps \<Rightarrow>
          (case to_number s2n (get_prop ps ''value'') of
             Inl e \<Rightarrow> Inl e
           | Inr n \<Rightarrow> Inr (set_prop name (JObj (set_prop ''value'' (JNum (add_one n)) ps)) us))
      | _ \<Rightarrow> Inl TypeError)"

section \<open>The host and the instance\<close>

text \<open>
  The host supplies the clock and the engine's string conversion: \<open>date_now h n\<close> is
  the result of the \<open>n\<close>-th call of \<open>Date.now()\<close>, in milliseconds.
\<close>

record host =
  date_now :: "nat \<Rightarrow> int"
  string_to_number :: "string \<Rightarrow> jsnum"

type_synonym vec3 = "rat \<times> rat \<times> rat"

record camera =
  cam_left :: rat
  cam_right :: rat
  cam_top :: rat
  cam_bottom :: rat
  cam_near :: rat
  cam_far :: rat
  cam_position :: vec3
  projection :: "rat \<times> rat \<times> rat \<times> rat"

text \<open>
  \<open>updateProjectionMatrix\<close> of the rendering library: the matrix is a function of the
  bounds, kept here as the bounds (left, right, top, bottom) it was computed from.
\<close>

definition updateProjectionMatrix :: "camera \<Rightarrow> camera" where
  "updateProjectionMatrix cam =
     cam\<lparr>projection := (cam_left cam, cam_right cam, cam_top cam, cam_bottom cam)\<rparr>"

datatype shader = DefaultVertexShader | DefaultFragmentShader | Source string

text \<open>
  What the renderer was asked to do, most recent call first. A render carries what the
  draw reads: the uniform table, the projection bounds, the quad's position and scale.
\<close>

datatype gl_call =
    GlSetClearColor jsval
  | GlClear
  | GlRender props "rat \<times> rat \<times> rat \<times> rat" vec3 vec3

fun is_render :: "gl_call \<Rightarrow> bool" where
  "is_render (GlRender us pr p s) = True"
| "is_render _ = False"

fun is_clear :: "gl_call \<Rightarrow> bool" where
  "is_clear GlClear = True"
| "is_clear _ = False"

text \<open>
  The instance with the part of the host it acts on: \<open>loop\<close> holds the variables
  \<open>startTime\<close> and \<open>lastFrameTime\<close> of the closure \<open>animate\<close> once \<open>startDrawing\<close> has
  created it, \<open>raf_scheduled\<close> counts the callbacks handed to \<open>requestAnimationFrame\<close>
  and not yet run, \<open>clock_reads\<close> the calls of \<open>Date.now()\<close> so far.
\<close>

record canvas =
  renderer_size :: "rat \<times> rat"
  gl_calls :: "gl_call list"
  appended :: bool
  camera :: camera
  uniforms :: props
  fragmentShader :: shader
  vertexShader :: shader
  mesh_position :: vec3
  mesh_scale :: vec3
  clearColor :: jsval
  isDrawing :: bool
  loop :: "(int \<times> int) option"
  raf_scheduled :: nat
  resize_listener :: bool
  clock_reads :: nat

text \<open>
  A call either returns or raises; an exception leaves the instance as it was at the
  throw, so both outcomes carry the state.
\<close>

type_synonym 'a outcome = "(error \<times> canvas) + 'a"

section \<open>The methods of \<open>ThreeShaderCanvas\<close>\<close>

definition setUniform :: "string \<Rightarrow> jsval \<Rightarrow> canvas \<Rightarrow> canvas outcome" where
  "setUniform key v c =
     (if is_nullish (get_prop (uniforms c) key)
      then Inr (c\<lparr>uniforms := set_prop key (JObj [(''value'', v)]) (uniforms c)\<rparr>)
      else (case put_value key v (uniforms c) of
              Inl e \<Rightarrow> Inl (e, c)
            | Inr us \<Rightarrow> Inr (c\<lparr>uniforms := us\<rparr>)))"

definition getUniform :: "string \<Rightarrow> canvas \<Rightarrow> (jsval \<times> canvas) outcome" where
  "getUniform key c = Inr (optional_value (get_prop (uniforms c) key), c)"

text \<open>\<open>func\<close> is a pure function of the old value.\<close>

definition applyToUniform :: "string \<Rightarrow> (jsval \<Rightarrow> jsval) \<Rightarrow> canvas \<Rightarrow> canvas outcome" where
  "applyToUniform key func c =
     (case getUniform key c of
        Inl x \<Rightarrow> Inl x
      | Inr (old, c1) \<Rightarrow> setUniform key (func old) c1)"

text \<open>
  The calls into the rendering library (\<open>setSize\<close>, \<open>updateProjectionMatrix\<close>,
  \<open>position.set\<close>, \<open>scale.set\<close>, and below \<open>setClearColor\<close>, \<open>clear\<close>, \<open>render\<close>) are
  taken to return normally.
\<close>

definition resize :: "rat \<Rightarrow> rat \<Rightarrow> canvas \<Rightarrow> canvas outcome" where
  "resize newWidth newHeight c =
     (let c1 = c\<lparr>renderer_size := (newWidth, newHeight)\<rparr>;
          c2 = c1\<lparr>camera := updateProjectionMatrix
                  ((camera c1)\<lparr>cam_right := newWidth, cam_bottom := newHeight\<rparr>)\<rparr>
      in case put_value ''screenWidth'' (JNum (Fin newWidth)) (uniforms c2) of
           Inl e \<Rightarrow> Inl (e, c2)
         | Inr us1 \<Rightarrow>
             let c3 = c2\<lparr>uniforms := us1\<rparr>
             in (case put_value ''screenHeight'' (JNum (Fin newHeight)) (uniforms c3) of
                   Inl e \<Rightarrow> Inl (e, c3)
                 | Inr us2 \<Rightarrow>
                     Inr (c3\<lparr>uniforms := us2,
                             mesh_position := (newWidth / 2, newHeight / 2, 0),
                             mesh_scale := (newWidth, newHeight, 1)\<rparr>)))"

definition getClearColor :: "canvas \<Rightarrow> (jsval \<times> canvas) outcome" where
  "getClearColor c = Inr (clearColor c, c)"

definition setClearColor :: "jsval \<Rightarrow> canvas \<Rightarrow> canvas outcome" where
  "setClearColor newColor c = Inr (c\<lparr>clearColor := newColor\<rparr>)"

text \<open>\<open>Date.now()\<close>.\<close>

definition Date_now :: "host \<Rightarrow> canvas \<Rightarrow> int \<times> canvas" where
  "Date_now h c = (date_now h (clock_reads c), c\<lparr>clock_reads := Suc (clock_reads c)\<rparr>)"

text \<open>
  The closure \<open>animate\<close> of \<open>startDrawing\<close>, with its two captured variables as
  arguments; the new \<open>lastFrameTime\<close> is stored in \<open>loop\<close>.
\<close>

definition animate :: "host \<Rightarrow> int \<Rightarrow> int \<Rightarrow> canvas \<Rightarrow> canvas outcome" where
  "animate h startTime lastFrameTime c =
     (let c1 = c\<lparr>raf_scheduled := Suc (raf_scheduled c)\<rparr>;
          c2 = c1\<lparr>gl_calls := GlClear # GlSetClearColor (clearColor c1) # gl_calls c1\<rparr>;
          (now, c3) = Date_now h c2
      in case put_value ''deltaTime''
                (JNum (Fin (of_int (now - lastFrameTime) / 1000))) (uniforms c3) of
           Inl e \<Rightarrow> Inl (e, c3)
         | Inr us1 \<Rightarrow>
             let c4 = c3\<lparr>uniforms := us1\<rparr>
             in (case put_value ''time''
                        (JNum (Fin (of_int (now - startTime) / 1000))) (uniforms c4) of
                   Inl e \<Rightarrow> Inl (e, c4)
                 | Inr us2 \<Rightarrow>
                     let c5 = c4\<lparr>uniforms := us2\<rparr>;
                         c6 = c5\<lparr>gl_calls :=
                                 GlRender (uniforms c5) (projection (camera c5))
                                   (mesh_position c5) (mesh_scale c5) # gl_calls c5\<rparr>
                     in (case increment_value (string_to_number h) ''frame'' (uniforms c6) of
                           Inl e \<Rightarrow> Inl (e, c6)
                         | Inr us3 \<Rightarrow>
                             Inr (c6\<lparr>uniforms := us3, loop := Some (startTime, now)\<rparr>))))"

text \<open>
  \<open>startDrawing\<close> past its guard, up to the call \<open>animate()\<close>: the flag and the two
  timestamps.
\<close>

definition loop_start :: "host \<Rightarrow> canvas \<Rightarrow> int \<times> int \<times> canvas" where
  "loop_start h c =
     (let c1 = c\<lparr>isDrawing := True\<rparr>;
          (startTime, c2) = Date_now h c1;
          (lastFrameTime, c3) = Date_now h c2
      in (startTime, lastFrameTime, c3\<lparr>loop := Some (startTime, lastFrameTime)\<rparr>))"

definition startDrawing :: "host \<Rightarrow> canvas \<Rightarrow> (bool \<times> canvas) outcome" where
  "startDrawing h c =
     (if isDrawing c then Inr (False, c)
      else
        let (startTime, lastFrameTime, c1) = loop_start h c
        in (case animate h startTime lastFrameTime c1 of
              Inl x \<Rightarrow> Inl x
            | Inr c2 \<Rightarrow> Inr (True, c2)))"

section \<open>Construction\<close>

text \<open>
  The configuration: an absent option is \<open>None\<close> (\<open>JUndefined\<close> for the colour);
  \<open>cfg_uniforms\<close> is \<open>None\<close> when \<open>config.uniforms\<close> is \<open>null\<close> or \<open>undefined\<close>.
\<close>

record config =
  cfg_uniforms :: "props option"
  cfg_fragmentShader :: "string option"
  cfg_vertexShader :: "string option"
  cfg_autoAppend :: "bool option"
  cfg_autoResize :: "bool option"
  cfg_autoStart :: "bool option"
  cfg_clearColor :: jsval

text \<open>\<open>x ?? d\<close> on an option of the configuration.\<close>

definition coalesce :: "'a option \<Rightarrow> 'a \<Rightarrow> 'a" where
  "coalesce x d = (case x of None \<Rightarrow> d | Some v \<Rightarrow> v)"

definition builtin_names :: "string list" where
  "builtin_names = [''screenWidth'', ''screenHeight'', ''time'', ''deltaTime'', ''frame'']"

definition builtin_uniforms :: props where
  "builtin_uniforms =
     [(''screenWidth'', JObj [(''value'', JNum (Fin 1))]),
      (''screenHeight'', JObj [(''value'', JNum (Fin 1))]),
      (''time'', JObj [(''value'', JNum (Fin 0))]),
      (''deltaTime'', JObj [(''value'', JNum (Fin 0))]),
      (''frame'', JObj [(''value'', JNum (Fin 0))])]"

text \<open>The loop that copies \<open>config.uniforms\<close> into the material's table.\<close>

definition merge_uniforms :: "props option \<Rightarrow> props \<Rightarrow> props" where
  "merge_uniforms cu us =
     (case cu of
        None \<Rightarrow> us
      | Some u \<Rightarrow> foldl (\<lambda>m key. set_prop key (get_prop u key) m) us (object_keys u))"

text \<open>
  The instance as the constructor has it before its call of \<open>resize\<close>: renderer of size
  1 by 1, camera, unit quad, material with the merged table.
\<close>

definition initial_canvas :: "config \<Rightarrow> canvas" where
  "initial_canvas cfg =
     \<lparr>renderer_size = (1, 1),
      gl_calls = [],
      appended = coalesce (cfg_autoAppend cfg) True,
      camera = \<lparr>cam_left = 0, cam_right = 1, cam_top = 0, cam_bottom = 1,
                cam_near = 1 / 100, cam_far = 1000, cam_position = (0, 0, 100),
                projection = (0, 1, 0, 1)\<rparr>,
      uniforms = merge_uniforms (cfg_uniforms cfg) builtin_uniforms,
      fragmentShader =
        (case cfg_fragmentShader cfg of None \<Rightarrow> DefaultFragmentShader | Some s \<Rightarrow> Source s),
      vertexShader =
        (case cfg_vertexShader cfg of None \<Rightarrow> DefaultVertexShader | Some s \<Rightarrow> Source s),
      mesh_position = (0, 0, 0),
      mesh_scale = (1, 1, 1),
      clearColor = JUndefined,
      isDrawing = False,
      loop = None,
      raf_scheduled = 0,
      resize_listener = False,
      clock_reads = 0\<rparr>"

text \<open>
  \<open>new ThreeShaderCanvas(config)\<close>, with \<open>window.innerWidth\<close> and \<open>window.innerHeight\<close>
  as they are at that moment. \<open>Inl\<close>: the constructor raised and there is no instance.
\<close>

definition new_ThreeShaderCanvas :: "host \<Rightarrow> rat \<Rightarrow> rat \<Rightarrow> config \<Rightarrow> canvas outcome" where
  "new_ThreeShaderCanvas h innerWidth innerHeight cfg =
     (case resize innerWidth innerHeight (initial_canvas cfg) of
        Inl x \<Rightarrow> Inl x
      | Inr c1 \<Rightarrow>
          let c2 = c1\<lparr>resize_listener := coalesce (cfg_autoResize cfg) True\<rparr>;
              c3 = c2\<lparr>clearColor :=
                        (if is_nullish (cfg_clearColor cfg) then JNum (Fin 5592405)
                         else cfg_clearColor cfg),
                      isDrawing := False\<rparr>
          in if coalesce (cfg_autoStart cfg) True
             then (case startDrawing h c3 of
                     Inl x \<Rightarrow> Inl x
                   | Inr (started, c4) \<Rightarrow> Inr c4)
             else Inr c3)"

section \<open>The life of an instance\<close>

text \<open>
  What happens to an instance after construction: calls of its methods, the host running
  the scheduled frame callback, the host's window changing size. A call that raises
  leaves the state of the throw behind and the instance lives on.
\<close>

datatype op =
    SetUniform string jsval
  | ApplyToUniform string "jsval \<Rightarrow> jsval"
  | GetUniform string
  | Resize rat rat
  | GetClearColor
  | SetClearColor jsval
  | StartDrawing
  | AnimationFrame
  | WindowResize rat rat

fun after :: "canvas outcome \<Rightarrow> canvas" where
  "after (Inl (e, c)) = c"
| "after (Inr c) = c"

fun after_call :: "('a \<times> canvas) outcome \<Rightarrow> canvas" where
  "after_call (Inl (e, c)) = c"
| "after_call (Inr (r, c)) = c"

text \<open>The host runs the callback scheduled by \<open>requestAnimationFrame\<close>, if there is one.\<close>

definition animation_frame :: "host \<Rightarrow> canvas \<Rightarrow> canvas" where
  "animation_frame h c =
     (case (raf_scheduled c, loop c) of
        (Suc n, Some (startTime, lastFrameTime)) \<Rightarrow>
          after (animate h startTime lastFrameTime (c\<lparr>raf_scheduled := n\<rparr>))
      | _ \<Rightarrow> c)"

fun exec :: "host \<Rightarrow> op \<Rightarrow> canvas \<Rightarrow> canvas" where
  "exec h (SetUniform k v) c = after (setUniform k v c)"
| "exec h (ApplyToUniform k f) c = after (applyToUniform k f c)"
| "exec h (GetUniform k) c = after_call (getUniform k c)"
| "exec h (Resize w h') c = after (resize w h' c)"
| "exec h GetClearColor c = after_call (getClearColor c)"
| "exec h (SetClearColor v) c = after (setClearColor v c)"
| "exec h StartDrawing c = after_call (startDrawing h c)"
| "exec h AnimationFrame c = animation_frame h c"
| "exec h (WindowResize w h') c = (if resize_listener c then after (resize w h' c) else c)"

definition run :: "host \<Rightarrow> op list \<Rightarrow> canvas \<Rightarrow> canvas" where
  "run h ops c = foldl (\<lambda>s x. exec h x s) c ops"

section \<open>Observations\<close>

text \<open>The exception a call raised, if any, and the value a call returned, if any.\<close>

fun raised :: "(error \<times> canvas) + 'a \<Rightarrow> error option" where
  "raised (Inl (e, c)) = Some e"
| "raised (Inr x) = None"

fun returned :: "('a \<times> canvas) outcome \<Rightarrow> 'a option" where
  "returned (Inl x) = None"
| "returned (Inr (r, c)) = Some r"

text \<open>The uniform table the most recent render has drawn with, and a value in it.\<close>

fun render_uniforms :: "gl_call list \<Rightarrow> props" where
  "render_uniforms [] = []"
| "render_uniforms (GlRender us pr p s # calls) = us"
| "render_uniforms (g # calls) = render_uniforms calls"

definition rendered :: "canvas \<Rightarrow> string \<Rightarrow> jsval" where
  "rendered c name = optional_value (get_prop (render_uniforms (gl_calls c)) name)"

text \<open>
  Every invocation of the frame callback clears the surface once, before anything in it
  can raise, and nothing else clears it: the clears count the invocations.
\<close>

definition callbacks :: "canvas \<Rightarrow> nat" where
  "callbacks c = length (filter is_clear (gl_calls c))"

definition renders :: "canvas \<Rightarrow> nat" where
  "renders c = length (filter is_render (gl_calls c))"

text \<open>The names the caller gives in the configuration, and those an operation sets.\<close>

definition config_keys :: "config \<Rightarrow> string list" where
  "config_keys cfg = (case cfg_uniforms cfg of None \<Rightarrow> [] | Some u \<Rightarrow> object_keys u)"

fun set_keys :: "op \<Rightarrow> string list" where
  "set_keys (SetUniform k v) = [k]"
| "set_keys (ApplyToUniform k f) = [k]"
| "set_keys _ = []"

definition keys_set :: "op list \<Rightarrow> string list" where
  "keys_set ops = concat (map set_keys ops)"

text \<open>
  The frame callback runs through exactly when the entries \<open>deltaTime\<close> and \<open>time\<close> are
  objects and the entry \<open>frame\<close> is an object whose value converts to a number.
\<close>

definition frame_countable :: "(string \<Rightarrow> jsnum) \<Rightarrow> props \<Rightarrow> bool" where
  "frame_countable s2n us =
     (case get_prop us ''frame'' of
        JObj ps \<Rightarrow> \<not> isl (to_number s2n (get_prop ps ''value''))
      | _ \<Rightarrow> False)"

definition loop_uniforms_ok :: "host \<Rightarrow> canvas \<Rightarrow> bool" where
  "loop_uniforms_ok h c =
     (is_object (get_prop (uniforms c) ''deltaTime'') \<and>
      is_object (get_prop (uniforms c) ''time'') \<and>
      frame_countable (string_to_number h) (uniforms c))"



section \<open>Invariants\<close>

text \<open>
  One step on the table that writes at most the names in \<open>K\<close>: every other name reads
  as before, an entry that is an object stays one, no name is lost and only names of
  \<open>K\<close> are new.
\<close>

definition table_step :: "string set \<Rightarrow> props \<Rightarrow> props \<Rightarrow> bool" where
  "table_step K us us' \<longleftrightarrow>
     (\<forall>k. k \<notin> K \<longrightarrow> get_prop us' k = get_prop us k) \<and>
     (\<forall>k. is_object (get_prop us k) \<longrightarrow> is_object (get_prop us' k)) \<and>
     fst ` set us \<subseteq> fst ` set us' \<and>
     fst ` set us' \<subseteq> fst ` set us \<union> K"

text \<open>The names an operation can write.\<close>

fun touched :: "op \<Rightarrow> string set" where
  "touched (SetUniform k v) = {k}"
| "touched (ApplyToUniform k f) = {k}"
| "touched (Resize w h') = {''screenWidth'', ''screenHeight''}"
| "touched (WindowResize w h') = {''screenWidth'', ''screenHeight''}"
| "touched StartDrawing = {''deltaTime'', ''time'', ''frame''}"
| "touched AnimationFrame = {''deltaTime'', ''time'', ''frame''}"
| "touched _ = {}"

text \<open>The loop is running exactly when one callback is scheduled and its closure exists.\<close>

definition loop_inv :: "canvas \<Rightarrow> bool" where
  "loop_inv c \<longleftrightarrow>
     (if isDrawing c then raf_scheduled c = 1 \<and> loop c \<noteq> None
      else raf_scheduled c = 0 \<and> loop c = None)"

text \<open>The size entries are objects and the camera's left and top bounds are 0.\<close>

definition size_inv :: "canvas \<Rightarrow> bool" where
  "size_inv c \<longleftrightarrow>
     is_object (get_prop (uniforms c) ''screenWidth'') \<and>
     is_object (get_prop (uniforms c) ''screenHeight'') \<and>
     cam_left (camera c) = 0 \<and> cam_top (camera c) = 0"

text \<open>The size uniforms are the size last given to the renderer.\<close>

definition size_sync :: "canvas \<Rightarrow> bool" where
  "size_sync c \<longleftrightarrow>
     optional_value (get_prop (uniforms c) ''screenWidth'') = JNum (Fin (fst (renderer_size c))) \<and>
     optional_value (get_prop (uniforms c) ''screenHeight'') = JNum (Fin (snd (renderer_size c)))"

text \<open>The frame counter is the number of callback invocations, each of which rendered.\<close>

definition frame_inv :: "canvas \<Rightarrow> bool" where
  "frame_inv c \<longleftrightarrow>
     is_object (get_prop (uniforms c) ''deltaTime'') \<and>
     is_object (get_prop (uniforms c) ''time'') \<and>
     is_object (get_prop (uniforms c) ''frame'') \<and>
     optional_value (get_prop (uniforms c) ''frame'') = JNum (Fin (of_nat (callbacks c))) \<and>
     renders c = callbacks c"

section \<open>Example hosts and configurations\<close>

text \<open>A host whose clock advances by one millisecond at every read.\<close>

definition ticking_host :: host where
  "ticking_host = \<lparr>date_now = (\<lambda>n. 1000 + int n), string_to_number = (\<lambda>s. NaN)\<rparr>"

text \<open>A host whose clock stands still.\<close>

definition frozen_host :: host where
  "frozen_host = \<lparr>date_now = (\<lambda>n. 1000), string_to_number = (\<lambda>s. NaN)\<rparr>"

text \<open>\<open>{ autoStart: false }\<close>, and the default configuration \<open>{ }\<close>.\<close>

definition manual_config :: config where
  "manual_config =
     \<lparr>cfg_uniforms = None, cfg_fragmentShader = None, cfg_vertexShader = None,
      cfg_autoAppend = None, cfg_autoResize = None, cfg_autoStart = Some False,
      cfg_clearColor = JUndefined\<rparr>"

definition default_config :: config where
  "default_config = manual_config\<lparr>cfg_autoStart := None\<rparr>"

text \<open>\<open>{ autoStart: false, uniforms: us }\<close>.\<close>

definition config_with :: "props \<Rightarrow> config" where
  "config_with us = manual_config\<lparr>cfg_uniforms := Some us\<rparr>"

text \<open>The instance a configuration gives in a window of 800 by 600 on the ticking host.\<close>

definition instance_of :: "config \<Rightarrow> canvas" where
  "instance_of cfg = after (new_ThreeShaderCanvas ticking_host 800 600 cfg)"

section \<open>Properties of the table\<close>

lemma get_prop_set_prop:
  "get_prop (set_prop k v ps) k' = (if k' = k then v else get_prop ps k')"
  by (simp add: get_prop_def set_prop_def update_conv')

lemma keys_set_prop:
  "fst ` set (set_prop k v ps) = insert k (fst ` set ps)"
  by (simp add: set_prop_def dom_update)

lemma get_prop_single: "get_prop [(k, v)] k' = (if k' = k then v else JUndefined)"
  by (simp add: get_prop_def)

lemma get_prop_absent: "\<not> has_own ps k \<Longrightarrow> get_prop ps k = JUndefined"
  by (simp add: has_own_def get_prop_def map_of_eq_None_iff[THEN iffD2])

lemma is_object_has_own: "is_object (get_prop ps k) \<Longrightarrow> has_own ps k"
  using get_prop_absent by fastforce


lemma put_value_cases:
  "put_value n v us =
     (case get_prop us n of
        JObj ps \<Rightarrow> Inr (set_prop n (JObj (set_prop ''value'' v ps)) us)
      | _ \<Rightarrow> Inl TypeError)"
  by (simp add: put_value_def split: jsval.splits)

lemma setUniform_cases:
  "setUniform k v c =
     (case get_prop (uniforms c) k of
        JUndefined \<Rightarrow> Inr (c\<lparr>uniforms := set_prop k (JObj [(''value'', v)]) (uniforms c)\<rparr>)
      | JNull \<Rightarrow> Inr (c\<lparr>uniforms := set_prop k (JObj [(''value'', v)]) (uniforms c)\<rparr>)
      | JObj ps \<Rightarrow> Inr (c\<lparr>uniforms := set_prop k (JObj (set_prop ''value'' v ps)) (uniforms c)\<rparr>)
      | _ \<Rightarrow> Inl (TypeError, c))"
  by (simp add: setUniform_def put_value_cases split: jsval.splits)

section \<open>setUniform, getUniform, applyToUniform\<close>






section \<open>Steps on the table\<close>

lemma table_step_refl: "table_step K us us"
  by (simp add: table_step_def)

lemma table_step_trans:
  assumes "table_step K1 a b" and "table_step K2 b c"
  shows "table_step (K1 \<union> K2) a c"
proof -
  have 1: "\<forall>k. k \<notin> K1 \<union> K2 \<longrightarrow> get_prop c k = get_prop a k"
    using assms by (simp add: table_step_def)
  have 2: "\<forall>k. is_object (get_prop a k) \<longrightarrow> is_object (get_prop c k)"
    using assms by (simp add: table_step_def)
  have 3: "fst ` set a \<subseteq> fst ` set c"
    using assms unfolding table_step_def by (meson subset_trans)
  have 4: "fst ` set c \<subseteq> fst ` set a \<union> (K1 \<union> K2)"
  proof -
    have "fst ` set c \<subseteq> fst ` set b \<union> K2" and "fst ` set b \<subseteq> fst ` set a \<union> K1"
      using assms by (simp_all add: table_step_def)
    then show ?thesis by blast
  qed
  from 1 2 3 4 show ?thesis unfolding table_step_def by (intro conjI)
qed

lemma table_step_mono: "table_step K a b \<Longrightarrow> K \<subseteq> K' \<Longrightarrow> table_step K' a b"
  using table_step_trans[OF _ table_step_refl, of K a b "K'"] by (simp add: Un_absorb2 sup.absorb2)

lemma table_step_set_obj:
  "table_step {n} us (set_prop n (JObj ps) us)"
  by (auto simp: table_step_def get_prop_set_prop keys_set_prop)

lemma put_value_Inr:
  "put_value n v us = Inr us' \<Longrightarrow>
     \<exists>ps. get_prop us n = JObj ps \<and> us' = set_prop n (JObj (set_prop ''value'' v ps)) us"
  by (auto simp: put_value_cases split: jsval.splits)

lemma put_value_step: "put_value n v us = Inr us' \<Longrightarrow> table_step {n} us us'"
  by (auto dest!: put_value_Inr simp: table_step_set_obj)

lemma increment_value_Inr:
  "increment_value s2n n us = Inr us' \<Longrightarrow>
     \<exists>ps m. get_prop us n = JObj ps \<and> to_number s2n (get_prop ps ''value'') = Inr m \<and>
            us' = set_prop n (JObj (set_prop ''value'' (JNum (add_one m)) ps)) us"
  by (auto simp: increment_value_def split: jsval.splits sum.splits)

lemma increment_value_step: "increment_value s2n n us = Inr us' \<Longrightarrow> table_step {n} us us'"
  by (auto dest!: increment_value_Inr simp: table_step_set_obj)

lemma setUniform_step: "table_step {k} (uniforms c) (uniforms (after (setUniform k v c)))"
  by (cases "get_prop (uniforms c) k")
     (simp_all add: setUniform_cases table_step_refl table_step_set_obj)

lemma applyToUniform_step:
  "table_step {k} (uniforms c) (uniforms (after (applyToUniform k f c)))"
  by (simp add: applyToUniform_def getUniform_def setUniform_step)

lemma resize_step:
  "table_step {''screenWidth'', ''screenHeight''} (uniforms c) (uniforms (after (resize w h' c)))"
proof (cases "put_value ''screenWidth'' (JNum (Fin w)) (uniforms c)")
  case (Inl e)
  then show ?thesis by (simp add: resize_def table_step_refl)
next
  case (Inr us1)
  note w = put_value_step[OF Inr]
  show ?thesis
  proof (cases "put_value ''screenHeight'' (JNum (Fin h')) us1")
    case (Inl e)
    with Inr w show ?thesis
      by (simp add: resize_def table_step_mono)
  next
    case h: (Inr us2)
    from table_step_trans[OF w put_value_step[OF h]] Inr h show ?thesis
      by (simp add: resize_def insert_commute)
  qed
qed

section \<open>The frame callback\<close>

lemma animate_fields:
  "isDrawing (after (animate h st lt c)) = isDrawing c \<and>
   camera (after (animate h st lt c)) = camera c \<and>
   renderer_size (after (animate h st lt c)) = renderer_size c \<and>
   mesh_position (after (animate h st lt c)) = mesh_position c \<and>
   mesh_scale (after (animate h st lt c)) = mesh_scale c \<and>
   clearColor (after (animate h st lt c)) = clearColor c \<and>
   resize_listener (after (animate h st lt c)) = resize_listener c \<and>
   raf_scheduled (after (animate h st lt c)) = Suc (raf_scheduled c) \<and>
   clock_reads (after (animate h st lt c)) = Suc (clock_reads c) \<and>
   callbacks (after (animate h st lt c)) = Suc (callbacks c)"
  by (simp add: animate_def Date_now_def Let_def callbacks_def split: sum.splits)

lemma animate_step:
  "table_step {''deltaTime'', ''time'', ''frame''} (uniforms c)
     (uniforms (after (animate h st lt c)))"
proof -
  let ?now = "date_now h (clock_reads c)"
  let ?d = "put_value ''deltaTime'' (JNum (Fin (of_int (?now - lt) / 1000))) (uniforms c)"
  show ?thesis
  proof (cases ?d)
    case (Inl e)
    then show ?thesis by (simp add: animate_def Date_now_def Let_def table_step_refl)
  next
    case d: (Inr us1)
    note sd = put_value_step[OF d]
    let ?t = "put_value ''time'' (JNum (Fin (of_int (?now - st) / 1000))) us1"
    show ?thesis
    proof (cases ?t)
      case (Inl e)
      with d table_step_mono[OF sd] show ?thesis
        by (simp add: animate_def Date_now_def Let_def)
    next
      case t: (Inr us2)
      note st = table_step_trans[OF sd put_value_step[OF t]]
      show ?thesis
      proof (cases "increment_value (string_to_number h) ''frame'' us2")
        case (Inl e)
        with d t table_step_mono[OF st] show ?thesis
          by (simp add: animate_def Date_now_def Let_def)
      next
        case f: (Inr us3)
        from table_step_trans[OF st increment_value_step[OF f]] d t f show ?thesis
          by (simp add: animate_def Date_now_def Let_def insert_commute Un_insert_right)
      qed
    qed
  qed
qed

lemma animate_ok:
  assumes "loop_uniforms_ok h c"
  shows "\<exists>pd pt pf n us1 us2.
     get_prop (uniforms c) ''deltaTime'' = JObj pd \<and>
     us1 = set_prop ''deltaTime'' (JObj (set_prop ''value''
             (JNum (Fin (of_int (date_now h (clock_reads c) - lt) / 1000))) pd)) (uniforms c) \<and>
     get_prop (uniforms c) ''time'' = JObj pt \<and>
     us2 = set_prop ''time'' (JObj (set_prop ''value''
             (JNum (Fin (of_int (date_now h (clock_reads c) - st) / 1000))) pt)) us1 \<and>
     get_prop (uniforms c) ''frame'' = JObj pf \<and>
     to_number (string_to_number h) (get_prop pf ''value'') = Inr n \<and>
     animate h st lt c =
       Inr (c\<lparr>raf_scheduled := Suc (raf_scheduled c),
              gl_calls := GlRender us2 (projection (camera c)) (mesh_position c) (mesh_scale c)
                 # GlClear # GlSetClearColor (clearColor c) # gl_calls c,
              clock_reads := Suc (clock_reads c),
              uniforms := set_prop ''frame''
                 (JObj (set_prop ''value'' (JNum (add_one n)) pf)) us2,
              loop := Some (st, date_now h (clock_reads c))\<rparr>)"
proof -
  from assms obtain pd pt pf where
    d: "get_prop (uniforms c) ''deltaTime'' = JObj pd" and
    t: "get_prop (uniforms c) ''time'' = JObj pt" and
    f: "get_prop (uniforms c) ''frame'' = JObj pf" and
    nf: "\<not> isl (to_number (string_to_number h) (get_prop pf ''value''))"
    by (auto simp: loop_uniforms_ok_def frame_countable_def split: jsval.splits
        elim!: is_object.elims)
  from nf obtain n where n: "to_number (string_to_number h) (get_prop pf ''value'') = Inr n"
    by (cases "to_number (string_to_number h) (get_prop pf ''value'')") auto
  show ?thesis
    using d t f n
    by (simp add: animate_def Date_now_def Let_def put_value_cases increment_value_def
        get_prop_set_prop)
qed

lemma error_is_TypeError: "(e::error) = TypeError"
  by (cases e) simp

lemma animate_raises:
  assumes "\<not> loop_uniforms_ok h c"
  shows "raised (animate h st lt c) = Some TypeError \<and>
         loop (after (animate h st lt c)) = loop c \<and>
         get_prop (uniforms (after (animate h st lt c))) ''frame'' = get_prop (uniforms c) ''frame''"
proof -
  let ?now = "date_now h (clock_reads c)"
  show ?thesis
  proof (cases "put_value ''deltaTime'' (JNum (Fin (of_int (?now - lt) / 1000))) (uniforms c)")
    case (Inl e)
    then show ?thesis
      by (simp add: animate_def Date_now_def Let_def error_is_TypeError)
  next
    case d: (Inr us1)
    note sd = put_value_step[OF d]
    show ?thesis
    proof (cases "put_value ''time'' (JNum (Fin (of_int (?now - st) / 1000))) us1")
      case (Inl e)
      with d sd show ?thesis
        by (simp add: animate_def Date_now_def Let_def error_is_TypeError table_step_def)
    next
      case t: (Inr us2)
      note sdt = table_step_trans[OF sd put_value_step[OF t]]
      have fr: "get_prop us2 ''frame'' = get_prop (uniforms c) ''frame''"
        using sdt by (simp add: table_step_def)
      have "is_object (get_prop (uniforms c) ''deltaTime'')"
        using d by (auto dest: put_value_Inr)
      moreover have "is_object (get_prop (uniforms c) ''time'')"
      proof -
        from t obtain ps where "get_prop us1 ''time'' = JObj ps" by (auto dest: put_value_Inr)
        with sd show ?thesis by (simp add: table_step_def)
      qed
      ultimately have nf: "\<not> frame_countable (string_to_number h) (uniforms c)"
        using assms by (simp add: loop_uniforms_ok_def)
      have "\<exists>e. increment_value (string_to_number h) ''frame'' us2 = Inl e"
      proof (cases "increment_value (string_to_number h) ''frame'' us2")
        case (Inl e)
        then show ?thesis by blast
      next
        case (Inr us3)
        from increment_value_Inr[OF Inr] obtain ps m where
          p: "get_prop us2 ''frame'' = JObj ps" and
          m: "to_number (string_to_number h) (get_prop ps ''value'') = Inr m" by blast
        from p fr have "get_prop (uniforms c) ''frame'' = JObj ps" by simp
        with nf m have False by (simp add: frame_countable_def)
        then show ?thesis ..
      qed
      then obtain e where "increment_value (string_to_number h) ''frame'' us2 = Inl e" ..
      with d t fr show ?thesis
        by (simp add: animate_def Date_now_def Let_def error_is_TypeError)
    qed
  qed
qed


lemma loop_start_fields:
  "loop_start h c = (st, lt, c1) \<Longrightarrow>
     st = date_now h (clock_reads c) \<and> lt = date_now h (Suc (clock_reads c)) \<and>
     c1 = c\<lparr>isDrawing := True, clock_reads := Suc (Suc (clock_reads c)), loop := Some (st, lt)\<rparr>"
  by (auto simp: loop_start_def Date_now_def Let_def)

lemma startDrawing_running: "isDrawing c \<Longrightarrow> startDrawing h c = Inr (False, c)"
  by (simp add: startDrawing_def)

lemma startDrawing_first:
  assumes "\<not> isDrawing c"
  shows "startDrawing h c =
     (case animate h (date_now h (clock_reads c)) (date_now h (Suc (clock_reads c)))
            (c\<lparr>isDrawing := True, clock_reads := Suc (Suc (clock_reads c)),
               loop := Some (date_now h (clock_reads c), date_now h (Suc (clock_reads c)))\<rparr>) of
        Inl x \<Rightarrow> Inl x | Inr c2 \<Rightarrow> Inr (True, c2))"
  using assms by (simp add: startDrawing_def loop_start_def Date_now_def Let_def)



section \<open>Operations and invariants\<close>

lemma setUniform_fields:
  "isDrawing (after (setUniform k v c)) = isDrawing c \<and>
   loop (after (setUniform k v c)) = loop c \<and>
   raf_scheduled (after (setUniform k v c)) = raf_scheduled c \<and>
   clock_reads (after (setUniform k v c)) = clock_reads c \<and>
   gl_calls (after (setUniform k v c)) = gl_calls c \<and>
   camera (after (setUniform k v c)) = camera c \<and>
   renderer_size (after (setUniform k v c)) = renderer_size c"
  by (cases "get_prop (uniforms c) k") (simp_all add: setUniform_cases)

lemma applyToUniform_after:
  "after (applyToUniform k f c) =
     after (setUniform k (f (optional_value (get_prop (uniforms c) k))) c)"
  by (simp add: applyToUniform_def getUniform_def)

lemma resize_fields:
  "isDrawing (after (resize w h' c)) = isDrawing c \<and>
   loop (after (resize w h' c)) = loop c \<and>
   raf_scheduled (after (resize w h' c)) = raf_scheduled c \<and>
   clock_reads (after (resize w h' c)) = clock_reads c \<and>
   gl_calls (after (resize w h' c)) = gl_calls c \<and>
   cam_left (camera (after (resize w h' c))) = cam_left (camera c) \<and>
   cam_top (camera (after (resize w h' c))) = cam_top (camera c) \<and>
   renderer_size (after (resize w h' c)) = (w, h')"
  by (simp add: resize_def Let_def updateProjectionMatrix_def split: sum.splits)

lemma resize_ok:
  assumes "get_prop (uniforms c) ''screenWidth'' = JObj pw"
      and "get_prop (uniforms c) ''screenHeight'' = JObj ph"
  shows "resize w h' c =
     Inr (c\<lparr>renderer_size := (w, h'),
            camera := (camera c)\<lparr>cam_right := w, cam_bottom := h',
                        projection := (cam_left (camera c), w, cam_top (camera c), h')\<rparr>,
            uniforms := set_prop ''screenHeight'' (JObj (set_prop ''value'' (JNum (Fin h')) ph))
               (set_prop ''screenWidth'' (JObj (set_prop ''value'' (JNum (Fin w)) pw))
                  (uniforms c)),
            mesh_position := (w / 2, h' / 2, 0),
            mesh_scale := (w, h', 1)\<rparr>)"
  using assms
  by (simp add: resize_def Let_def put_value_cases get_prop_set_prop updateProjectionMatrix_def)

lemma resize_Inr_objects:
  assumes "resize w h' c = Inr c'"
  shows "is_object (get_prop (uniforms c) ''screenWidth'') \<and>
         is_object (get_prop (uniforms c) ''screenHeight'')"
proof -
  from assms obtain us1 where
    w: "put_value ''screenWidth'' (JNum (Fin w)) (uniforms c) = Inr us1"
    by (auto simp: resize_def Let_def split: sum.splits)
  with assms obtain us2 where
    h: "put_value ''screenHeight'' (JNum (Fin h')) us1 = Inr us2"
    by (auto simp: resize_def Let_def split: sum.splits)
  from w have 1: "is_object (get_prop (uniforms c) ''screenWidth'')"
    by (auto dest: put_value_Inr)
  from h obtain ps where "get_prop us1 ''screenHeight'' = JObj ps"
    by (auto dest: put_value_Inr)
  with put_value_step[OF w] have "is_object (get_prop (uniforms c) ''screenHeight'')"
    by (simp add: table_step_def)
  with 1 show ?thesis ..
qed

lemma after_call_lift:
  "after_call (case x of Inl y \<Rightarrow> Inl y | Inr c2 \<Rightarrow> Inr (r, c2)) = after x"
  by (cases x) auto

lemma startDrawing_after:
  "after_call (startDrawing h c) =
     (if isDrawing c then c
      else after (animate h (date_now h (clock_reads c)) (date_now h (Suc (clock_reads c)))
            (c\<lparr>isDrawing := True, clock_reads := Suc (Suc (clock_reads c)),
               loop := Some (date_now h (clock_reads c), date_now h (Suc (clock_reads c)))\<rparr>)))"
  by (simp add: startDrawing_running startDrawing_first after_call_lift)

lemma animation_frame_cases:
  "animation_frame h c =
     (if raf_scheduled c = 0 \<or> loop c = None then c
      else after (animate h (fst (the (loop c))) (snd (the (loop c)))
                   (c\<lparr>raf_scheduled := raf_scheduled c - 1\<rparr>)))"
  by (auto simp: animation_frame_def split: nat.splits option.splits)

lemma exec_table_step: "table_step (touched op) (uniforms c) (uniforms (exec h op c))"
proof (cases op)
  case (SetUniform k v)
  then show ?thesis by (simp add: setUniform_step)
next
  case (ApplyToUniform k f)
  then show ?thesis by (simp add: applyToUniform_step)
next
  case (Resize w h')
  then show ?thesis by (simp add: resize_step)
next
  case (WindowResize w h')
  then show ?thesis by (simp add: resize_step table_step_refl)
next
  case StartDrawing
  then show ?thesis
    using animate_step[of "c\<lparr>isDrawing := True, clock_reads := Suc (Suc (clock_reads c)),
               loop := Some (date_now h (clock_reads c), date_now h (Suc (clock_reads c)))\<rparr>"]
    by (simp add: startDrawing_after table_step_refl)
next
  case AnimationFrame
  then show ?thesis
    using animate_step[of "c\<lparr>raf_scheduled := raf_scheduled c - 1\<rparr>"]
    by (simp add: animation_frame_cases table_step_refl)
qed (simp_all add: getUniform_def getClearColor_def setClearColor_def table_step_refl)

lemma exec_isDrawing: "isDrawing (exec h op c) \<longleftrightarrow> isDrawing c \<or> op = StartDrawing"
  by (cases op)
     (simp_all add: setUniform_fields applyToUniform_after resize_fields getUniform_def
        getClearColor_def setClearColor_def startDrawing_after animation_frame_cases
        animate_fields)

lemma animate_loop:
  "loop (after (animate h st lt c)) = loop c \<or>
   loop (after (animate h st lt c)) = Some (st, date_now h (clock_reads c))"
  by (simp add: animate_def Date_now_def Let_def split: sum.splits)

lemma exec_loop_inv: "loop_inv c \<Longrightarrow> loop_inv (exec h op c)"
proof (cases op)
  case StartDrawing
  assume "loop_inv c"
  then show ?thesis
    using StartDrawing
      animate_loop[of h "date_now h (clock_reads c)" "date_now h (Suc (clock_reads c))"
        "c\<lparr>isDrawing := True, clock_reads := Suc (Suc (clock_reads c)),
               loop := Some (date_now h (clock_reads c), date_now h (Suc (clock_reads c)))\<rparr>"]
    by (auto simp: loop_inv_def startDrawing_after animate_fields split: if_splits)
next
  case AnimationFrame
  assume "loop_inv c"
  then show ?thesis
    using AnimationFrame
      animate_loop[of h "fst (the (loop c))" "snd (the (loop c))"
         "c\<lparr>raf_scheduled := raf_scheduled c - 1\<rparr>"]
    by (auto simp: loop_inv_def animation_frame_cases animate_fields split: if_splits)
qed (auto simp: loop_inv_def setUniform_fields applyToUniform_after resize_fields
       getUniform_def getClearColor_def setClearColor_def split: if_splits)

section \<open>Construction and reachable instances\<close>

lemma merge_fold_get:
  "get_prop (foldl (\<lambda>m key. set_prop key (get_prop u key) m) us ks) k =
     (if k \<in> set ks then get_prop u k else get_prop us k)"
  by (induction ks arbitrary: us) (auto simp: get_prop_set_prop)


lemma merge_get:
  "get_prop (merge_uniforms cu us) k =
     (case cu of None \<Rightarrow> get_prop us k
      | Some u \<Rightarrow> if has_own u k then get_prop u k else get_prop us k)"
  by (simp add: merge_uniforms_def merge_fold_get object_keys_def has_own_def split: option.splits)



lemma new_Inr:
  assumes "new_ThreeShaderCanvas h iw ih cfg = Inr c0"
  obtains c1 c3 where
    "resize iw ih (initial_canvas cfg) = Inr c1"
    "c3 = c1\<lparr>resize_listener := coalesce (cfg_autoResize cfg) True,
             clearColor := (if is_nullish (cfg_clearColor cfg) then JNum (Fin 5592405)
                            else cfg_clearColor cfg),
             isDrawing := False\<rparr>"
    "c0 = (if coalesce (cfg_autoStart cfg) True then exec h StartDrawing c3 else c3)"
    "coalesce (cfg_autoStart cfg) True \<longrightarrow> raised (startDrawing h c3) = None"
proof -
  from assms obtain c1 where r: "resize iw ih (initial_canvas cfg) = Inr c1"
    by (auto simp: new_ThreeShaderCanvas_def split: sum.splits)
  let ?c3 = "c1\<lparr>resize_listener := coalesce (cfg_autoResize cfg) True,
             clearColor := (if is_nullish (cfg_clearColor cfg) then JNum (Fin 5592405)
                            else cfg_clearColor cfg),
             isDrawing := False\<rparr>"
  from assms r have
    "c0 = (if coalesce (cfg_autoStart cfg) True then exec h StartDrawing ?c3 else ?c3)"
    by (auto simp: new_ThreeShaderCanvas_def Let_def split: sum.splits if_splits)
  moreover from assms r have
    "coalesce (cfg_autoStart cfg) True \<longrightarrow> raised (startDrawing h ?c3) = None"
    by (auto simp: new_ThreeShaderCanvas_def Let_def split: sum.splits if_splits)
  ultimately show thesis using r that by blast
qed

text \<open>The instance as the constructor has it before it looks at \<open>autoStart\<close>.\<close>

lemma configured_facts:
  assumes r: "resize iw ih (initial_canvas cfg) = Inr c1"
    and c3: "c3 = c1\<lparr>resize_listener := rl, clearColor := cc, isDrawing := False\<rparr>"
  shows "table_step {''screenWidth'', ''screenHeight''} (uniforms (initial_canvas cfg)) (uniforms c3)"
    and "size_inv c3" and "size_sync c3" and "loop_inv c3" and "\<not> isDrawing c3"
    and "gl_calls c3 = []" and "clock_reads c3 = 0"
proof -
  have c1: "c1 = after (resize iw ih (initial_canvas cfg))" using r by simp
  from resize_step[of "initial_canvas cfg" iw ih] c1 c3
  show ts: "table_step {''screenWidth'', ''screenHeight''} (uniforms (initial_canvas cfg)) (uniforms c3)"
    by simp
  from resize_Inr_objects[OF r] have
    ow: "is_object (get_prop (uniforms (initial_canvas cfg)) ''screenWidth'')" and
    oh: "is_object (get_prop (uniforms (initial_canvas cfg)) ''screenHeight'')" by auto
  from resize_fields[of iw ih "initial_canvas cfg"] c1 c3 ow oh ts
  show "size_inv c3"
    by (simp add: size_inv_def table_step_def initial_canvas_def)
  from ow oh obtain pw ph where
    pw: "get_prop (uniforms (initial_canvas cfg)) ''screenWidth'' = JObj pw" and
    ph: "get_prop (uniforms (initial_canvas cfg)) ''screenHeight'' = JObj ph"
    by (auto elim!: is_object.elims)
  from resize_ok[OF pw ph, of iw ih] r c3 show "size_sync c3"
    by (auto simp: size_sync_def get_prop_set_prop)
  from resize_fields[of iw ih "initial_canvas cfg"] c1 c3
  show "loop_inv c3" and "\<not> isDrawing c3" and "gl_calls c3 = []" and "clock_reads c3 = 0"
    by (simp_all add: loop_inv_def initial_canvas_def)
qed

lemma run_snoc: "run h (ops @ [op]) c = exec h op (run h ops c)"
  by (simp add: run_def)

lemma run_Nil: "run h [] c = c"
  by (simp add: run_def)

lemma run_invariant:
  assumes "P c" and "\<And>s op. op \<in> set ops \<Longrightarrow> P s \<Longrightarrow> P (exec h op s)"
  shows "P (run h ops c)"
  using assms
proof (induction ops rule: rev_induct)
  case Nil
  then show ?case by (simp add: run_Nil)
next
  case (snoc op ops)
  then show ?case by (simp add: run_snoc)
qed



lemma exec_camera:
  "cam_left (camera (exec h op c)) = cam_left (camera c) \<and>
   cam_top (camera (exec h op c)) = cam_top (camera c)"
  by (cases op)
     (simp_all add: setUniform_fields applyToUniform_after resize_fields getUniform_def
        getClearColor_def setClearColor_def startDrawing_after animation_frame_cases
        animate_fields)

lemma exec_size_inv: "size_inv c \<Longrightarrow> size_inv (exec h op c)"
  using exec_table_step[of op c h] exec_camera[of h op c]
  by (simp add: size_inv_def table_step_def)

lemma constructed_start:
  assumes "new_ThreeShaderCanvas h iw ih cfg = Inr c0"
  shows "size_inv c0" and "loop_inv c0"
    and "isDrawing c0 \<longleftrightarrow> coalesce (cfg_autoStart cfg) True"
    and "table_step (set builtin_names) (uniforms (initial_canvas cfg)) (uniforms c0)"
proof -
  from assms obtain c1 c3 where
    r: "resize iw ih (initial_canvas cfg) = Inr c1" and
    c3: "c3 = c1\<lparr>resize_listener := coalesce (cfg_autoResize cfg) True,
             clearColor := (if is_nullish (cfg_clearColor cfg) then JNum (Fin 5592405)
                            else cfg_clearColor cfg),
             isDrawing := False\<rparr>" and
    c0: "c0 = (if coalesce (cfg_autoStart cfg) True then exec h StartDrawing c3 else c3)"
    by (rule new_Inr)
  note f = configured_facts[OF r c3]
  from f(2) c0 show "size_inv c0" by (simp add: exec_size_inv del: exec.simps)
  from f(4) c0 show "loop_inv c0" by (simp add: exec_loop_inv del: exec.simps)
  from f(5) c0 show "isDrawing c0 \<longleftrightarrow> coalesce (cfg_autoStart cfg) True"
    by (simp add: exec_isDrawing del: exec.simps)
  have "table_step (touched StartDrawing) (uniforms c3) (uniforms (exec h StartDrawing c3))"
    by (rule exec_table_step)
  note st = table_step_trans[OF f(1) this]
  have s1: "{''screenWidth'', ''screenHeight''} \<subseteq> set builtin_names"
    and s2: "{''screenWidth'', ''screenHeight''} \<union> touched StartDrawing \<subseteq> set builtin_names"
    by (simp_all add: builtin_names_def)
  show "table_step (set builtin_names) (uniforms (initial_canvas cfg)) (uniforms c0)"
  proof (cases "coalesce (cfg_autoStart cfg) True")
    case True
    with c0 table_step_mono[OF st s2] show ?thesis by (simp del: exec.simps)
  next
    case False
    with c0 table_step_mono[OF f(1) s1] show ?thesis by simp
  qed
qed

section \<open>resize, startDrawing and unset names\<close>


lemma reachable_loop_inv:
  assumes "new_ThreeShaderCanvas h iw ih cfg = Inr c0"
  shows "loop_inv (run h ops c0)"
  using constructed_start(2)[OF assms] by (rule run_invariant) (rule exec_loop_inv)


lemma raised_lift:
  "raised (case x of Inl y \<Rightarrow> Inl y | Inr c2 \<Rightarrow> Inr (r, c2)) = raised x"
  by (cases x) auto








section \<open>The timestamps of the loop\<close>

text \<open>
  C7, as amended. When \<open>startDrawing\<close> starts the loop, \<open>startTime\<close> and
  \<open>lastFrameTime\<close> are the results of two consecutive reads of the clock, \<open>startTime\<close>
  first, and the first frame runs with these two values: they are equal when the clock
  does not advance between the two reads, and \<open>startTime \<le> lastFrameTime\<close> when the
  clock does not go back.
\<close>

theorem loop_start_timestamps:
  assumes "loop_start h c = (st, lt, c1)"
  shows "st = date_now h (clock_reads c) \<and>
     lt = date_now h (Suc (clock_reads c)) \<and>
     loop c1 = Some (st, lt) \<and>
     (\<not> isDrawing c \<longrightarrow>
        startDrawing h c = (case animate h st lt c1 of Inl x \<Rightarrow> Inl x | Inr c2 \<Rightarrow> Inr (True, c2))) \<and>
     (date_now h (Suc (clock_reads c)) = date_now h (clock_reads c) \<longrightarrow> st = lt) \<and>
     (date_now h (clock_reads c) \<le> date_now h (Suc (clock_reads c)) \<longrightarrow> st \<le> lt)"
  using assms loop_start_fields[OF assms]
  by (auto simp: startDrawing_def)

text \<open>
  A clock that stands still gives equal timestamps; a clock that ticks gives ordered ones.
\<close>

theorem loop_start_timestamps_witness:
  "loop_start frozen_host (instance_of manual_config) =
     (1000, 1000, snd (snd (loop_start frozen_host (instance_of manual_config)))) \<and>
   \<not> isDrawing (instance_of manual_config) \<and>
   date_now frozen_host (Suc (clock_reads (instance_of manual_config))) =
     date_now frozen_host (clock_reads (instance_of manual_config)) \<and>
   loop (snd (snd (loop_start frozen_host (instance_of manual_config)))) = Some (1000, 1000) \<and>
   loop_start ticking_host (instance_of manual_config) =
     (1000, 1001, snd (snd (loop_start ticking_host (instance_of manual_config)))) \<and>
   date_now ticking_host (clock_reads (instance_of manual_config)) \<le>
     date_now ticking_host (Suc (clock_reads (instance_of manual_config))) \<and>
   startDrawing ticking_host (instance_of manual_config) =
     (case animate ticking_host 1000 1001
             (snd (snd (loop_start ticking_host (instance_of manual_config)))) of
        Inl x \<Rightarrow> Inl x | Inr c2 \<Rightarrow> Inr (True, c2))"
proof -
  have a: "loop_start frozen_host (instance_of manual_config) =
     (1000, 1000, snd (snd (loop_start frozen_host (instance_of manual_config))))"
    and b: "\<not> isDrawing (instance_of manual_config)"
    and c: "date_now frozen_host (Suc (clock_reads (instance_of manual_config))) =
     date_now frozen_host (clock_reads (instance_of manual_config))"
    and d: "loop_start ticking_host (instance_of manual_config) =
     (1000, 1001, snd (snd (loop_start ticking_host (instance_of manual_config))))"
    and e: "date_now ticking_host (clock_reads (instance_of manual_config)) \<le>
     date_now ticking_host (Suc (clock_reads (instance_of manual_config)))"
    by code_simp+
  note t1 = loop_start_timestamps[OF a]
  note t2 = loop_start_timestamps[OF d]
  show ?thesis using a b c d e t1 t2 by blast
qed

text \<open>
  C7 as stated fails: on a clock that advances by a millisecond per read the call
  returns \<open>true\<close> with \<open>startTime = 1000\<close> and \<open>lastFrameTime = 1001\<close>, and the first frame
  draws with \<open>time\<close> two milliseconds and \<open>deltaTime\<close> one.
\<close>

theorem loop_start_timestamps_counterexample:
  "raised (new_ThreeShaderCanvas ticking_host 800 600 manual_config) = None \<and>
   returned (startDrawing ticking_host (instance_of manual_config)) = Some True \<and>
   fst (loop_start ticking_host (instance_of manual_config)) = 1000 \<and>
   fst (snd (loop_start ticking_host (instance_of manual_config))) = 1001 \<and>
   rendered (after_call (startDrawing ticking_host (instance_of manual_config))) ''time''
     = JNum (Fin (2 / 1000)) \<and>
   rendered (after_call (startDrawing ticking_host (instance_of manual_config))) ''deltaTime''
     = JNum (Fin (1 / 1000))"
  by code_simp

lemma animate_effect:
  assumes "loop_uniforms_ok h c"
  shows "raised (animate h st lt c) = None"
    and "gl_calls (after (animate h st lt c)) =
       GlRender (render_uniforms (gl_calls (after (animate h st lt c))))
           (projection (camera c)) (mesh_position c) (mesh_scale c)
         # GlClear # GlSetClearColor (clearColor c) # gl_calls c"
    and "rendered (after (animate h st lt c)) ''deltaTime'' =
       JNum (Fin (of_int (date_now h (clock_reads c) - lt) / 1000))"
    and "rendered (after (animate h st lt c)) ''time'' =
       JNum (Fin (of_int (date_now h (clock_reads c) - st) / 1000))"
    and "rendered (after (animate h st lt c)) ''frame'' =
       optional_value (get_prop (uniforms c) ''frame'')"
    and "loop (after (animate h st lt c)) = Some (st, date_now h (clock_reads c))"
proof -
  from animate_ok[OF assms, of lt st] obtain pd pt pf n us1 us2 where
    d: "get_prop (uniforms c) ''deltaTime'' = JObj pd" and
    us1: "us1 = set_prop ''deltaTime'' (JObj (set_prop ''value''
             (JNum (Fin (of_int (date_now h (clock_reads c) - lt) / 1000))) pd)) (uniforms c)" and
    t: "get_prop (uniforms c) ''time'' = JObj pt" and
    us2: "us2 = set_prop ''time'' (JObj (set_prop ''value''
             (JNum (Fin (of_int (date_now h (clock_reads c) - st) / 1000))) pt)) us1" and
    f: "get_prop (uniforms c) ''frame'' = JObj pf" and
    a: "animate h st lt c =
       Inr (c\<lparr>raf_scheduled := Suc (raf_scheduled c),
              gl_calls := GlRender us2 (projection (camera c)) (mesh_position c) (mesh_scale c)
                 # GlClear # GlSetClearColor (clearColor c) # gl_calls c,
              clock_reads := Suc (clock_reads c),
              uniforms := set_prop ''frame''
                 (JObj (set_prop ''value'' (JNum (add_one n)) pf)) us2,
              loop := Some (st, date_now h (clock_reads c))\<rparr>)"
    by blast
  from a show "raised (animate h st lt c) = None" by simp
  from a show "gl_calls (after (animate h st lt c)) =
       GlRender (render_uniforms (gl_calls (after (animate h st lt c))))
           (projection (camera c)) (mesh_position c) (mesh_scale c)
         # GlClear # GlSetClearColor (clearColor c) # gl_calls c" by simp
  from a us1 us2 show "rendered (after (animate h st lt c)) ''deltaTime'' =
       JNum (Fin (of_int (date_now h (clock_reads c) - lt) / 1000))"
    by (simp add: rendered_def get_prop_set_prop)
  from a us1 us2 show "rendered (after (animate h st lt c)) ''time'' =
       JNum (Fin (of_int (date_now h (clock_reads c) - st) / 1000))"
    by (simp add: rendered_def get_prop_set_prop)
  from a us1 us2 f show "rendered (after (animate h st lt c)) ''frame'' =
       optional_value (get_prop (uniforms c) ''frame'')"
    by (simp add: rendered_def get_prop_set_prop)
  from a show "loop (after (animate h st lt c)) = Some (st, date_now h (clock_reads c))" by simp
qed






section \<open>The frame counter\<close>

lemma startDrawing_raises:
  assumes "\<not> isDrawing c" and "\<not> loop_uniforms_ok h c"
  shows "raised (startDrawing h c) = Some TypeError"
proof -
  let ?c1 = "c\<lparr>isDrawing := True, clock_reads := Suc (Suc (clock_reads c)),
               loop := Some (date_now h (clock_reads c), date_now h (Suc (clock_reads c)))\<rparr>"
  have "\<not> loop_uniforms_ok h ?c1" using assms(2) by (simp add: loop_uniforms_ok_def)
  from animate_raises[OF this, of "date_now h (clock_reads c)"
        "date_now h (Suc (clock_reads c))", THEN conjunct1]
  show ?thesis using assms(1) by (simp add: startDrawing_first raised_lift)
qed

lemma frame_inv_ok: "frame_inv c \<Longrightarrow> loop_uniforms_ok h c"
proof -
  assume a: "frame_inv c"
  then obtain pf where pf: "get_prop (uniforms c) ''frame'' = JObj pf"
    by (cases "get_prop (uniforms c) ''frame''") (simp_all add: frame_inv_def)
  with a have "get_prop pf ''value'' = JNum (Fin (of_nat (callbacks c)))"
    by (simp add: frame_inv_def)
  with a pf show ?thesis
    by (simp add: frame_inv_def loop_uniforms_ok_def frame_countable_def)
qed

lemma frame_inv_cong:
  "uniforms c' = uniforms c \<Longrightarrow> gl_calls c' = gl_calls c \<Longrightarrow> frame_inv c' = frame_inv c"
  by (simp add: frame_inv_def callbacks_def renders_def)

lemma frame_inv_step:
  assumes "frame_inv c" and "table_step K (uniforms c) (uniforms c')" and "''frame'' \<notin> K"
    and "gl_calls c' = gl_calls c"
  shows "frame_inv c'"
  using assms by (simp add: frame_inv_def table_step_def callbacks_def renders_def)

lemma animate_frame_inv:
  assumes "frame_inv c"
  shows "frame_inv (after (animate h st lt c))"
    and "rendered (after (animate h st lt c)) ''frame'' = JNum (Fin (of_nat (callbacks c)))"
proof -
  have ok: "loop_uniforms_ok h c" using assms by (rule frame_inv_ok)
  from animate_ok[OF ok, of lt st] obtain pd pt pf n us1 us2 where
    f: "get_prop (uniforms c) ''frame'' = JObj pf" and
    n: "to_number (string_to_number h) (get_prop pf ''value'') = Inr n" and
    a: "animate h st lt c =
       Inr (c\<lparr>raf_scheduled := Suc (raf_scheduled c),
              gl_calls := GlRender us2 (projection (camera c)) (mesh_position c) (mesh_scale c)
                 # GlClear # GlSetClearColor (clearColor c) # gl_calls c,
              clock_reads := Suc (clock_reads c),
              uniforms := set_prop ''frame''
                 (JObj (set_prop ''value'' (JNum (add_one n)) pf)) us2,
              loop := Some (st, date_now h (clock_reads c))\<rparr>)"
    by blast
  from assms f have v: "get_prop pf ''value'' = JNum (Fin (of_nat (callbacks c)))"
    by (simp add: frame_inv_def)
  with n have n': "n = Fin (of_nat (callbacks c))" by simp
  note ts = animate_step[of c h st lt]
  have objs: "is_object (get_prop (uniforms (after (animate h st lt c))) ''deltaTime'') \<and>
              is_object (get_prop (uniforms (after (animate h st lt c))) ''time'')"
    using ts assms by (simp add: table_step_def frame_inv_def)
  from a n' objs assms show "frame_inv (after (animate h st lt c))"
    by (simp add: frame_inv_def get_prop_set_prop callbacks_def renders_def)
  from animate_effect(5)[OF ok, of st lt] assms
  show "rendered (after (animate h st lt c)) ''frame'' = JNum (Fin (of_nat (callbacks c)))"
    by (simp add: frame_inv_def)
qed

lemma exec_frame_inv:
  assumes "frame_inv c" and "''frame'' \<notin> set (set_keys op)"
  shows "frame_inv (exec h op c)"
proof (cases op)
  case (SetUniform k v)
  with assms(2) have k: "''frame'' \<notin> {k}" by simp
  have g: "gl_calls (after (setUniform k v c)) = gl_calls c" by (simp add: setUniform_fields)
  from frame_inv_step[OF assms(1) setUniform_step k g] SetUniform show ?thesis by simp
next
  case (ApplyToUniform k f)
  with assms(2) have k: "''frame'' \<notin> {k}" by simp
  have g: "gl_calls (after (applyToUniform k f c)) = gl_calls c"
    by (simp add: applyToUniform_after setUniform_fields)
  from frame_inv_step[OF assms(1) applyToUniform_step k g] ApplyToUniform show ?thesis by simp
next
  case (GetUniform k)
  then show ?thesis using assms(1) by (simp add: getUniform_def)
next
  case (Resize w h')
  have k: "''frame'' \<notin> {''screenWidth'', ''screenHeight''}" by simp
  have g: "gl_calls (after (resize w h' c)) = gl_calls c" by (simp add: resize_fields)
  from frame_inv_step[OF assms(1) resize_step k g] Resize show ?thesis by simp
next
  case GetClearColor
  then show ?thesis using assms(1) by (simp add: getClearColor_def)
next
  case (SetClearColor v)
  have "frame_inv (c\<lparr>clearColor := v\<rparr>) = frame_inv c" by (rule frame_inv_cong) simp_all
  with SetClearColor assms(1) show ?thesis by (simp add: setClearColor_def)
next
  case StartDrawing
  let ?c1 = "c\<lparr>isDrawing := True, clock_reads := Suc (Suc (clock_reads c)),
               loop := Some (date_now h (clock_reads c), date_now h (Suc (clock_reads c)))\<rparr>"
  have "frame_inv ?c1 = frame_inv c" by (rule frame_inv_cong) simp_all
  with assms(1) have i1: "frame_inv ?c1" by simp
  show ?thesis
  proof (cases "isDrawing c")
    case True
    with StartDrawing assms(1) show ?thesis by (simp add: startDrawing_running)
  next
    case False
    with StartDrawing have e: "exec h op c =
        after (animate h (date_now h (clock_reads c)) (date_now h (Suc (clock_reads c))) ?c1)"
      by (simp add: startDrawing_after)
    show ?thesis unfolding e by (rule animate_frame_inv(1)[OF i1])
  qed
next
  case AnimationFrame
  let ?c1 = "c\<lparr>raf_scheduled := raf_scheduled c - 1\<rparr>"
  have "frame_inv ?c1 = frame_inv c" by (rule frame_inv_cong) simp_all
  with assms(1) have i1: "frame_inv ?c1" by simp
  show ?thesis
  proof (cases "raf_scheduled c = 0 \<or> loop c = None")
    case True
    with AnimationFrame assms(1) show ?thesis by (simp add: animation_frame_cases)
  next
    case False
    with AnimationFrame have e: "exec h op c =
        after (animate h (fst (the (loop c))) (snd (the (loop c))) ?c1)"
      by (auto simp: animation_frame_cases)
    show ?thesis unfolding e by (rule animate_frame_inv(1)[OF i1])
  qed
next
  case (WindowResize w h')
  have k: "''frame'' \<notin> {''screenWidth'', ''screenHeight''}" by simp
  have g: "gl_calls (after (resize w h' c)) = gl_calls c" by (simp add: resize_fields)
  from frame_inv_step[OF assms(1) resize_step k g] WindowResize assms(1) show ?thesis by simp
qed

lemma exec_callbacks_mono: "callbacks c \<le> callbacks (exec h op c)"
  by (cases op)
     (simp_all add: callbacks_def setUniform_fields applyToUniform_after resize_fields
        getUniform_def getClearColor_def setClearColor_def startDrawing_after
        animation_frame_cases animate_fields[unfolded callbacks_def])

lemma run_callbacks_mono: "callbacks c \<le> callbacks (run h ops c)"
proof (induction ops rule: rev_induct)
  case Nil
  then show ?case by (simp add: run_Nil)
next
  case (snoc op ops)
  from snoc exec_callbacks_mono[of "run h ops c" h op] show ?case
    by (simp add: run_snoc del: exec.simps)
qed

lemma run_frame_inv:
  assumes "frame_inv c" and "''frame'' \<notin> set (keys_set ops)"
  shows "frame_inv (run h ops c)"
  using assms(1)
proof (rule run_invariant)
  fix s :: canvas and op
  assume "op \<in> set ops" and "frame_inv s"
  then have "''frame'' \<notin> set (set_keys op)" and "frame_inv s"
    using assms(2) by (auto simp: keys_set_def)
  then show "frame_inv (exec h op s)"
    by (intro exec_frame_inv)
qed

lemma constructed_frame_inv:
  assumes new: "new_ThreeShaderCanvas h iw ih cfg = Inr c0"
    and nf: "''frame'' \<notin> set (config_keys cfg)"
    and od: "is_object (get_prop (uniforms c0) ''deltaTime'')"
    and ot: "is_object (get_prop (uniforms c0) ''time'')"
  shows "frame_inv c0"
    and "callbacks c0 = (if coalesce (cfg_autoStart cfg) True then 1 else 0)"
    and "optional_value (get_prop (uniforms (initial_canvas cfg)) ''frame'') = JNum (Fin 0)"
proof -
  from new obtain c1 c3 where
    r: "resize iw ih (initial_canvas cfg) = Inr c1" and
    c3: "c3 = c1\<lparr>resize_listener := coalesce (cfg_autoResize cfg) True,
             clearColor := (if is_nullish (cfg_clearColor cfg) then JNum (Fin 5592405)
                            else cfg_clearColor cfg),
             isDrawing := False\<rparr>" and
    c0: "c0 = (if coalesce (cfg_autoStart cfg) True then exec h StartDrawing c3 else c3)" and
    st: "coalesce (cfg_autoStart cfg) True \<longrightarrow> raised (startDrawing h c3) = None"
    by (rule new_Inr)
  note f = configured_facts[OF r c3]
  have b0: "get_prop builtin_uniforms ''frame'' = JObj [(''value'', JNum (Fin 0))]"
    by (simp add: builtin_uniforms_def get_prop_def)
  have fr0: "get_prop (uniforms (initial_canvas cfg)) ''frame'' = JObj [(''value'', JNum (Fin 0))]"
  proof (cases "cfg_uniforms cfg")
    case None
    then show ?thesis by (simp add: initial_canvas_def merge_get b0)
  next
    case (Some u)
    with nf have "\<not> has_own u ''frame''"
      by (simp add: config_keys_def has_own_def object_keys_def)
    with Some show ?thesis by (simp add: initial_canvas_def merge_get b0)
  qed
  then show "optional_value (get_prop (uniforms (initial_canvas cfg)) ''frame'') = JNum (Fin 0)"
    by (simp add: get_prop_single)
  from f(1) fr0 have fr3: "get_prop (uniforms c3) ''frame'' = JObj [(''value'', JNum (Fin 0))]"
    by (simp add: table_step_def)
  have objs3: "is_object (get_prop (uniforms c3) ''deltaTime'') \<and>
               is_object (get_prop (uniforms c3) ''time'')"
  proof (cases "coalesce (cfg_autoStart cfg) True")
    case True
    from st True f(5) startDrawing_raises[of c3 h] have "loop_uniforms_ok h c3" by auto
    then show ?thesis by (simp add: loop_uniforms_ok_def)
  next
    case False
    with c0 od ot show ?thesis by simp
  qed
  have inv3: "frame_inv c3"
    using fr3 objs3 f(6)
    by (simp add: frame_inv_def callbacks_def renders_def get_prop_single)
  have cb3: "callbacks c3 = 0" using f(6) by (simp add: callbacks_def)
  show "frame_inv c0"
  proof (cases "coalesce (cfg_autoStart cfg) True")
    case True
    with c0 exec_frame_inv[OF inv3, of StartDrawing h] show ?thesis by (simp del: exec.simps)
  next
    case False
    with c0 inv3 show ?thesis by simp
  qed
  show "callbacks c0 = (if coalesce (cfg_autoStart cfg) True then 1 else 0)"
    using c0 cb3 f(5)
    by (simp add: startDrawing_after animate_fields[unfolded callbacks_def] callbacks_def)
qed

text \<open>
  C4, as amended. On an instance whose configuration does not name \<open>frame\<close> and whose
  entries \<open>deltaTime\<close> and \<open>time\<close> are objects, and as long as the caller does not set
  \<open>frame\<close>: the table is built with \<open>frame = 0\<close>; after any operations
  \<open>getUniform("frame")\<close> is the number of invocations of the frame callback so far (one
  already after a construction with \<open>autoStart\<close>), each of which has rendered; the number
  never decreases; and a further invocation renders with the old count and leaves the
  count plus one behind.
\<close>

theorem frame_counts_callbacks:
  assumes "new_ThreeShaderCanvas h iw ih cfg = Inr c0"
    and "c = run h ops c0"
    and "''frame'' \<notin> set (config_keys cfg)"
    and "''frame'' \<notin> set (keys_set ops)"
    and "is_object (get_prop (uniforms c0) ''deltaTime'')"
    and "is_object (get_prop (uniforms c0) ''time'')"
  shows "optional_value (get_prop (uniforms (initial_canvas cfg)) ''frame'') = JNum (Fin 0) \<and>
     callbacks c0 = (if coalesce (cfg_autoStart cfg) True then 1 else 0) \<and>
     getUniform ''frame'' c = Inr (JNum (Fin (of_nat (callbacks c))), c) \<and>
     renders c = callbacks c \<and>
     callbacks c0 \<le> callbacks c \<and>
     (0 < raf_scheduled c \<longrightarrow>
        callbacks (animation_frame h c) = Suc (callbacks c) \<and>
        rendered (animation_frame h c) ''frame'' = JNum (Fin (of_nat (callbacks c))) \<and>
        getUniform ''frame'' (animation_frame h c) =
          Inr (JNum (Fin (of_nat (callbacks c) + 1)), animation_frame h c))"
proof -
  note k = constructed_frame_inv[OF assms(1,3,5,6)]
  have inv: "frame_inv c"
    using run_frame_inv[OF k(1) assms(4), of h] assms(2) by simp
  have li: "loop_inv c"
    using reachable_loop_inv[OF assms(1), of ops] assms(2) by simp
  have g: "getUniform ''frame'' c = Inr (JNum (Fin (of_nat (callbacks c))), c)"
    using inv by (simp add: getUniform_def frame_inv_def)
  have m: "callbacks c0 \<le> callbacks c"
    using run_callbacks_mono[of c0 h ops] assms(2) by simp
  have step: "callbacks (animation_frame h c) = Suc (callbacks c) \<and>
        rendered (animation_frame h c) ''frame'' = JNum (Fin (of_nat (callbacks c))) \<and>
        getUniform ''frame'' (animation_frame h c) =
          Inr (JNum (Fin (of_nat (callbacks c) + 1)), animation_frame h c)"
    if r: "0 < raf_scheduled c"
  proof -
    from li r have l: "loop c \<noteq> None" by (auto simp: loop_inv_def split: if_splits)
    let ?c1 = "c\<lparr>raf_scheduled := raf_scheduled c - 1\<rparr>"
    have e: "animation_frame h c =
        after (animate h (fst (the (loop c))) (snd (the (loop c))) ?c1)"
      using r l by (auto simp: animation_frame_cases)
    have "frame_inv ?c1 = frame_inv c" by (rule frame_inv_cong) simp_all
    with inv have i1: "frame_inv ?c1" by simp
    have cb: "callbacks ?c1 = callbacks c" by (simp add: callbacks_def)
    note a = animate_frame_inv[OF i1, of h "fst (the (loop c))" "snd (the (loop c))"]
    from a(1) have "getUniform ''frame'' (animation_frame h c) =
        Inr (JNum (Fin (of_nat (callbacks (animation_frame h c)))), animation_frame h c)"
      unfolding e by (simp add: getUniform_def frame_inv_def)
    moreover have "callbacks (animation_frame h c) = Suc (callbacks c)"
      unfolding e using cb by (simp add: animate_fields)
    moreover have "rendered (animation_frame h c) ''frame'' = JNum (Fin (of_nat (callbacks c)))"
      unfolding e using a(2) cb by simp
    ultimately show ?thesis by simp
  qed
  from k(2,3) g inv m step show ?thesis by (simp add: frame_inv_def)
qed

text \<open>
  The default configuration, two frames with the caller overwriting \<open>time\<close> in between:
  three invocations with the one of the constructor.
\<close>

theorem frame_counts_callbacks_witness:
  "new_ThreeShaderCanvas ticking_host 800 600 default_config = Inr (instance_of default_config) \<and>
   ''frame'' \<notin> set (config_keys default_config) \<and>
   ''frame'' \<notin> set (keys_set [AnimationFrame, SetUniform ''time'' JNull, AnimationFrame]) \<and>
   is_object (get_prop (uniforms (instance_of default_config)) ''deltaTime'') \<and>
   is_object (get_prop (uniforms (instance_of default_config)) ''time'') \<and>
   0 < raf_scheduled (run ticking_host [AnimationFrame, SetUniform ''time'' JNull, AnimationFrame]
         (instance_of default_config)) \<and>
   callbacks (run ticking_host [AnimationFrame, SetUniform ''time'' JNull, AnimationFrame]
         (instance_of default_config)) = 3 \<and>
   getUniform ''frame'' (run ticking_host [AnimationFrame, SetUniform ''time'' JNull, AnimationFrame]
         (instance_of default_config)) =
     Inr (JNum (Fin (of_nat (callbacks (run ticking_host
            [AnimationFrame, SetUniform ''time'' JNull, AnimationFrame]
            (instance_of default_config))))),
          run ticking_host [AnimationFrame, SetUniform ''time'' JNull, AnimationFrame]
            (instance_of default_config)) \<and>
   callbacks (animation_frame ticking_host
       (run ticking_host [AnimationFrame, SetUniform ''time'' JNull, AnimationFrame]
         (instance_of default_config))) =
     Suc (callbacks (run ticking_host [AnimationFrame, SetUniform ''time'' JNull, AnimationFrame]
         (instance_of default_config)))"
proof -
  have a: "new_ThreeShaderCanvas ticking_host 800 600 default_config
             = Inr (instance_of default_config)"
    and b: "''frame'' \<notin> set (config_keys default_config)"
    and d: "is_object (get_prop (uniforms (instance_of default_config)) ''deltaTime'')"
    and e: "is_object (get_prop (uniforms (instance_of default_config)) ''time'')"
    and f: "0 < raf_scheduled (run ticking_host
         [AnimationFrame, SetUniform ''time'' JNull, AnimationFrame] (instance_of default_config))"
    and g: "callbacks (run ticking_host [AnimationFrame, SetUniform ''time'' JNull, AnimationFrame]
         (instance_of default_config)) = 3"
    by code_simp+
  have c: "''frame'' \<notin> set (keys_set [AnimationFrame, SetUniform ''time'' JNull, AnimationFrame])"
    by (simp add: keys_set_def)
  note t = frame_counts_callbacks[OF a refl b c d e]
  show ?thesis using a b c d e f g t by blast
qed

text \<open>
  C4 as stated fails: with \<open>{ uniforms: { deltaTime: null }, autoStart: false }\<close>, where
  the caller sets \<open>frame\<close> nowhere, three invocations of the callback leave
  \<open>getUniform("frame")\<close> at 0: each raises at the write of \<open>deltaTime\<close>.
\<close>

theorem frame_counts_callbacks_counterexample:
  "raised (new_ThreeShaderCanvas ticking_host 800 600 (config_with [(''deltaTime'', JNull)])) = None \<and>
   ''frame'' \<notin> set (config_keys (config_with [(''deltaTime'', JNull)])) \<and>
   ''frame'' \<notin> set (keys_set [StartDrawing, AnimationFrame, AnimationFrame]) \<and>
   callbacks (run ticking_host [StartDrawing, AnimationFrame, AnimationFrame]
      (instance_of (config_with [(''deltaTime'', JNull)]))) = 3 \<and>
   returned (getUniform ''frame'' (run ticking_host [StartDrawing, AnimationFrame, AnimationFrame]
      (instance_of (config_with [(''deltaTime'', JNull)])))) = Some (JNum (Fin 0))"
  by code_simp

section \<open>Built-in names and the configuration\<close>















end
